theory Spec2Isabelle
  imports Complex_Main
begin

section \<open>Python values used by \<open>read_pdf.py\<close>\<close>

text \<open>
  Python \<open>str\<close> values are modelled as \<^typ>\<open>string\<close>, Python \<open>int\<close> as \<^typ>\<open>int\<close>,
  Python \<open>float\<close> as \<^typ>\<open>real\<close> (rounding, infinities and NaN are outside the model), and
  an exception as a value of \<open>py_error\<close> returned in the left summand.
\<close>

datatype py_error = ZeroDivisionError | ValueError | ProviderError string | OSError string

text \<open>\<open>str.isspace\<close> on the characters a \<^typ>\<open>char\<close> can hold (code points below 256).\<close>

definition isspace :: "char \<Rightarrow> bool" where
  "isspace c = (of_char c \<in> {9, 10, 11, 12, 13, 28, 29, 30, 31, 32, 133, 160 :: nat})"

text \<open>\<open>s.strip()\<close>: leading and trailing whitespace removed.\<close>

definition strip :: "string \<Rightarrow> string" where
  "strip s = rev (dropWhile isspace (rev (dropWhile isspace s)))"

text \<open>\<open>xs[i:j]\<close>: a negative bound counts from the end, both bounds are clipped to the list.\<close>

definition py_slice :: "'a list \<Rightarrow> int \<Rightarrow> int \<Rightarrow> 'a list" where
  "py_slice xs i j =
     (let n = int (length xs);
          lo = (if i < 0 then max 0 (n + i) else min i n);
          hi = (if j < 0 then max 0 (n + j) else min j n)
      in take (nat (hi - lo)) (drop (nat lo) xs))"

section \<open>Chunking\<close>

text \<open>
  The \<open>while start < n\<close> loop of \<open>chunk_text\<close> (lines 143 to 148). The loop need not end
  when \<open>overlap\<close> is not below \<open>max_chars\<close>; \<open>None\<close> stands for a loop that never leaves
  (the program then appends chunks until memory runs out).
\<close>

partial_function (option) chunk_loop ::
  "string \<Rightarrow> int \<Rightarrow> int \<Rightarrow> int \<Rightarrow> string list \<Rightarrow> string list option" where
  "chunk_loop tokens max_chars overlap start chunks =
     (let n = int (length tokens) in
      if start < n then
        (let stop = min (start + max_chars) n;
             chunks' = chunks @ [strip (py_slice tokens start stop)]
         in if stop = n then Some chunks'
            else chunk_loop tokens max_chars overlap (max 0 (stop - overlap)) chunks')
      else Some chunks)"

declare chunk_loop.simps [code]

text \<open>\<open>chunk_text\<close> (lines 131 to 152): empty text gives no chunk; empty windows are dropped.\<close>

definition chunk_text :: "string \<Rightarrow> int \<Rightarrow> int \<Rightarrow> string list option" where
  "chunk_text text max_chars overlap =
     (if text = [] then Some []
      else map_option (filter (\<lambda>c. c \<noteq> [])) (chunk_loop text max_chars overlap 0 []))"

text \<open>
  The chunker as the specification words it: window \<open>k\<close> starts \<open>k * (m - ov)\<close> characters
  into the text and holds at most \<open>m\<close> characters; windows are produced until one reaches the
  end of the text.
\<close>

definition spec_window :: "string \<Rightarrow> nat \<Rightarrow> nat \<Rightarrow> nat \<Rightarrow> string" where
  "spec_window T m ov k = take m (drop (k * (m - ov)) T)"

definition spec_window_count :: "nat \<Rightarrow> nat \<Rightarrow> nat \<Rightarrow> nat" where
  "spec_window_count n m ov = Suc ((n - m + (m - ov) - 1) div (m - ov))"

definition spec_windows :: "string \<Rightarrow> nat \<Rightarrow> nat \<Rightarrow> string list" where
  "spec_windows T m ov = map (spec_window T m ov) [0..<spec_window_count (length T) m ov]"

text \<open>
  "Concatenating chunks with overlaps removed": the first chunk whole, every later chunk
  without its first \<open>ov\<close> characters.
\<close>

definition remove_overlaps :: "nat \<Rightarrow> string list \<Rightarrow> string" where
  "remove_overlaps ov cs = (case cs of [] \<Rightarrow> [] | c # rest \<Rightarrow> c @ concat (map (drop ov) rest))"

section \<open>Embeddings and similarity\<close>

type_synonym vector = "real list"

text \<open>
  The client is what \<open>embed_texts\<close> uses of it: \<open>client.embeddings.create(model, input)\<close>
  either raises or answers with the embeddings of \<open>resp.data\<close>, in the order of the response.
\<close>

type_synonym client = "string list \<Rightarrow> py_error + vector list"

text \<open>\<open>embed_texts\<close> (lines 168 to 182): any exception is caught and turned into \<open>[]\<close>.\<close>

definition embed_texts :: "client \<Rightarrow> string list \<Rightarrow> vector list" where
  "embed_texts client texts =
     (if texts = [] then []
      else case client texts of Inl e \<Rightarrow> [] | Inr embeddings \<Rightarrow> embeddings)"

definition py_sqrt :: "real \<Rightarrow> py_error + real" where
  "py_sqrt x = (if x < 0 then Inl ValueError else Inr (sqrt x))"

definition py_truediv :: "real \<Rightarrow> real \<Rightarrow> py_error + real" where
  "py_truediv x y = (if y = 0 then Inl ZeroDivisionError else Inr (x / y))"

text \<open>The \<open>for x, y in zip(a, b)\<close> loop of \<open>cosine_similarity\<close>, on \<open>(dot, na, nb)\<close>.\<close>

fun cosine_loop :: "(real \<times> real) list \<Rightarrow> real \<times> real \<times> real \<Rightarrow> real \<times> real \<times> real" where
  "cosine_loop [] acc = acc"
| "cosine_loop ((x, y) # rest) (dot, na, nb) =
     cosine_loop rest (dot + x * y, na + x * x, nb + y * y)"

text \<open>The body of the \<open>try\<close> of \<open>cosine_similarity\<close> (lines 188 to 197).\<close>

definition cosine_try :: "vector \<Rightarrow> vector \<Rightarrow> py_error + real" where
  "cosine_try a b =
     (case cosine_loop (zip a b) (0, 0, 0) of
        (dot, na, nb) \<Rightarrow>
          if na = 0 \<or> nb = 0 then Inr 0
          else (case py_sqrt na of
                  Inl e \<Rightarrow> Inl e
                | Inr ra \<Rightarrow>
                    (case py_sqrt nb of
                       Inl e \<Rightarrow> Inl e
                     | Inr rb \<Rightarrow> py_truediv dot (ra * rb))))"

text \<open>
  \<open>cosine_similarity\<close> (lines 185 to 199): \<open>except Exception: return 0.0\<close>. The arithmetic
  is that of the real numbers: where the float computation of the code overflows to an
  infinity, produces a NaN or underflows to zero, its result is not the value given here.
\<close>

definition cosine_similarity :: "vector \<Rightarrow> vector \<Rightarrow> real" where
  "cosine_similarity a b = (case cosine_try a b of Inl e \<Rightarrow> 0 | Inr r \<Rightarrow> r)"

section \<open>The JSON database\<close>

record chunk =
  chunk_id :: string
  chunk_text_of :: string
  embedding :: vector

record document =
  document_id :: string
  source_path :: string
  doc_name :: string
  doc_chunks :: "chunk list"

text \<open>
  A file of the disk either parses to the layout \<open>{"documents": [...]}\<close> that ingestion
  writes, or it does not (broken JSON, or no \<open>documents\<close> key).
\<close>

datatype file_content = Malformed | Db "document list"

type_synonym disk = "string \<rightharpoonup> file_content"

text \<open>\<open>load_db\<close> (lines 205 to 217): a missing or unreadable file is the empty database.\<close>

definition load_db :: "disk \<Rightarrow> string \<Rightarrow> document list" where
  "load_db d db_path =
     (case d db_path of
        None \<Rightarrow> []
      | Some Malformed \<Rightarrow> []
      | Some (Db docs) \<Rightarrow> docs)"

text \<open>
  \<open>save_db\<close> (lines 220 to 229) writes \<open>db_path + ".tmp"\<close> and renames it over \<open>db_path\<close>.
  Either step may raise an \<open>OSError\<close>, which \<open>save_db\<close> catches and only prints.
\<close>

datatype save_fault = NoFault | OpenTmpFails | ReplaceFails

definition save_db :: "save_fault \<Rightarrow> disk \<Rightarrow> string \<Rightarrow> document list \<Rightarrow> disk" where
  "save_db fault d db_path data =
     (let tmp = db_path @ ''.tmp'' in
      case fault of
        OpenTmpFails \<Rightarrow> d
      | ReplaceFails \<Rightarrow> d(tmp \<mapsto> Db data)
      | NoFault \<Rightarrow> ((d(tmp \<mapsto> Db data))(tmp := None))(db_path \<mapsto> Db data))"

text \<open>\<open>str(i)\<close> for a natural number and for an integer.\<close>

fun str_nat :: "nat \<Rightarrow> string" where
  "str_nat n = (if n < 10 then [char_of (48 + n)] else str_nat (n div 10) @ [char_of (48 + n mod 10)])"

declare str_nat.simps [simp del]

definition str_int :: "int \<Rightarrow> string" where
  "str_int i = (if i < 0 then ''-'' @ str_nat (nat (- i)) else str_nat (nat i))"

section \<open>Ingestion\<close>

text \<open>What ingestion takes from outside: the PDF extractors, \<open>uuid.uuid4()\<close>, \<open>os.path\<close> and the file system's behaviour on the write.\<close>

record ingest_env =
  extract_text_from_pdf :: "string \<Rightarrow> string"
  uuid4 :: string
  abspath :: "string \<Rightarrow> string"
  basename :: "string \<Rightarrow> string"
  fault :: save_fault

text \<open>The record built in lines 254 to 262.\<close>

definition build_record :: "ingest_env \<Rightarrow> string \<Rightarrow> string \<Rightarrow> string list \<Rightarrow> vector list \<Rightarrow> document" where
  "build_record env pdf_path doc_id chunks vectors =
     \<lparr>document_id = doc_id,
      source_path = abspath env pdf_path,
      doc_name = basename env pdf_path,
      doc_chunks =
        map (\<lambda>(i, (ch, vec)). \<lparr>chunk_id = doc_id @ ''_'' @ str_nat i, chunk_text_of = ch, embedding = vec\<rparr>)
            (enumerate 0 (zip chunks vectors))\<rparr>"

text \<open>
  \<open>ingest_pdf_to_db\<close> (lines 232 to 271). The result is the returned value (\<open>None\<close> on
  failure) with the disk afterwards; the outer \<open>None\<close> stands for a call that never returns.
\<close>

definition ingest_pdf_to_db ::
  "ingest_env \<Rightarrow> client \<Rightarrow> disk \<Rightarrow> string \<Rightarrow> string \<Rightarrow> (string option \<times> disk) option" where
  "ingest_pdf_to_db env client d pdf_path db_path =
     (let raw_text = extract_text_from_pdf env pdf_path in
      if raw_text = [] then Some (None, d)
      else
        (case chunk_text raw_text 1200 150 of
           None \<Rightarrow> None
         | Some chunks \<Rightarrow>
             if chunks = [] then Some (None, d)
             else
               (let vectors = embed_texts client chunks in
                if vectors = [] \<or> length vectors \<noteq> length chunks then Some (None, d)
                else
                  (let doc_id = uuid4 env;
                       rec = build_record env pdf_path doc_id chunks vectors;
                       db = load_db d db_path
                   in Some (Some doc_id, save_db (fault env) d db_path (db @ [rec]))))))"

section \<open>Search\<close>

text \<open>
  \<open>list.sort(key, reverse=True)\<close>: the list is reversed, sorted stably by the key, and reversed
  again. The keys are real numbers here, hence totally ordered; the order in which \<open>list.sort\<close>
  leaves float keys that include a NaN is not described by this definition.
\<close>

definition py_sort_reverse :: "('a \<Rightarrow> real) \<Rightarrow> 'a list \<Rightarrow> 'a list" where
  "py_sort_reverse key xs = rev (sort_key key (rev xs))"

text \<open>The two nested loops of \<open>search_db\<close> (lines 294 to 301).\<close>

definition score_chunks :: "vector \<Rightarrow> document list \<Rightarrow> (real \<times> string \<times> string) list" where
  "score_chunks q docs =
     concat (map (\<lambda>doc. map (\<lambda>ch. (cosine_similarity q (embedding ch), chunk_text_of ch, source_path doc))
                              (doc_chunks doc)) docs)"

text \<open>Ranking (lines 293 to 305): score, sort by descending score, keep \<open>max(1, top_k)\<close>.\<close>

definition rank_chunks :: "vector \<Rightarrow> document list \<Rightarrow> int \<Rightarrow> (real \<times> string \<times> string) list" where
  "rank_chunks q docs top_k = py_slice (py_sort_reverse fst (score_chunks q docs)) 0 (max 1 top_k)"

text \<open>\<open>search_db\<close> (lines 274 to 308).\<close>

definition search_db :: "client \<Rightarrow> disk \<Rightarrow> string \<Rightarrow> string \<Rightarrow> int \<Rightarrow> (real \<times> string \<times> string) list" where
  "search_db client d db_path query top_k =
     (let docs = load_db d db_path in
      if docs = [] then []
      else
        (case embed_texts client [query] of
           [] \<Rightarrow> []
         | q # _ \<Rightarrow> rank_chunks q docs top_k))"

section \<open>The retrieve tool\<close>

record tool_env =
  get_openai_client :: "py_error + client"
  getcwd :: string
  format_4f :: "real \<Rightarrow> string"
  str_of_error :: "py_error \<Rightarrow> string"

text \<open>\<open>os.path.join\<close> of two components on a POSIX system.\<close>

definition path_join :: "string \<Rightarrow> string \<Rightarrow> string" where
  "path_join a b =
     (if b \<noteq> [] \<and> hd b = CHR ''/'' then b
      else if a = [] \<or> last a = CHR ''/'' then a @ b
      else a @ ''/'' @ b)"

text \<open>\<open>get_user_db_path\<close> (lines 31 to 40).\<close>

definition get_user_db_path :: "tool_env \<Rightarrow> int \<Rightarrow> int \<Rightarrow> string option \<Rightarrow> string" where
  "get_user_db_path env user_id session_id custom_path =
     (case custom_path of
        Some p \<Rightarrow> if p \<noteq> [] then p
                  else path_join (path_join (path_join (path_join (getcwd env) ''database'') (str_int user_id))
                                   (str_int session_id)) ''rag_vector_db.json''
      | None \<Rightarrow> path_join (path_join (path_join (path_join (getcwd env) ''database'') (str_int user_id))
                           (str_int session_id)) ''rag_vector_db.json'')"

definition no_results_message :: "int \<Rightarrow> int \<Rightarrow> string" where
  "no_results_message user_id session_id =
     ''No results found in the knowledge base for user '' @ str_int user_id @ '', session '' @
     str_int session_id @ ''. Please upload a PDF document first.''"

text \<open>One line of the result (lines 341 to 344).\<close>

definition format_hit :: "tool_env \<Rightarrow> nat \<times> (real \<times> string \<times> string) \<Rightarrow> string" where
  "format_hit env h =
     (case h of (i, (score, txt, source)) \<Rightarrow>
        (let snippet = map (\<lambda>c. if c = CHR 0x0A then CHR '' '' else c) (strip txt);
             snippet = (if length snippet > 800 then take 800 snippet @ ''...'' else snippet)
         in ''['' @ str_nat i @ ''] score='' @ format_4f env score @ '' | source='' @ source @
            [CHR 0x0A] @ snippet @ [CHR 0x0A]))"

definition join_lines :: "string list \<Rightarrow> string" where
  "join_lines ls = (case ls of [] \<Rightarrow> [] | l # rest \<Rightarrow> l @ concat (map (\<lambda>x. CHR 0x0A # x) rest))"

text \<open>The body of the \<open>try\<close> of \<open>retrieve\<close> (lines 329 to 346).\<close>

definition retrieve_try ::
  "tool_env \<Rightarrow> disk \<Rightarrow> string \<Rightarrow> int \<Rightarrow> int \<Rightarrow> int \<Rightarrow> string option \<Rightarrow> py_error + string" where
  "retrieve_try env d query user_id session_id top_k db_path =
     (if query = [] then Inr ''Query must be a non-empty string.''
      else
        (case get_openai_client env of
           Inl e \<Rightarrow> Inl e
         | Inr client \<Rightarrow>
             (let path = get_user_db_path env user_id session_id db_path;
                  hits = search_db client d path query top_k
              in if hits = [] then Inr (no_results_message user_id session_id)
                 else Inr (join_lines (map (format_hit env) (enumerate 1 hits))))))"

text \<open>
  \<open>retrieve\<close> (lines 314 to 351): an exception of the body becomes the returned string.
  \<open>Inl\<close> would be an exception that reaches the caller.
\<close>

definition retrieve ::
  "tool_env \<Rightarrow> disk \<Rightarrow> string \<Rightarrow> int \<Rightarrow> int \<Rightarrow> int \<Rightarrow> string option \<Rightarrow> py_error + string" where
  "retrieve env d query user_id session_id top_k db_path =
     (case retrieve_try env d query user_id session_id top_k db_path of
        Inl e \<Rightarrow> Inr (''[retrieve tool error] '' @ str_of_error env e)
      | Inr s \<Rightarrow> Inr s)"

section \<open>Properties of the chunker\<close>

lemma ceil_div_upper:
  fixes d s :: nat
  assumes "0 < s"
  shows "d \<le> ((d + s - 1) div s) * s"
proof -
  have "d + s - 1 = ((d + s - 1) div s) * s + (d + s - 1) mod s"
    by simp
  moreover have "(d + s - 1) mod s < s"
    using assms by simp
  ultimately have "d + s - 1 < ((d + s - 1) div s) * s + s"
    by linarith
  then show ?thesis using assms by linarith
qed

lemma ceil_div_lower:
  fixes d s k :: nat
  assumes "0 < s" and "k < (d + s - 1) div s"
  shows "k * s < d"
proof -
  have "Suc k \<le> (d + s - 1) div s"
    using assms(2) by simp
  then have "Suc k * s \<le> ((d + s - 1) div s) * s"
    by (rule mult_le_mono1)
  also have "\<dots> \<le> d + s - 1"
    by (rule div_times_less_eq_dividend)
  finally have "k * s + s \<le> d + s - 1" by simp
  then show ?thesis using assms(1) by linarith
qed

lemma count_last: "ov < m \<Longrightarrow> n \<le> (spec_window_count n m ov - 1) * (m - ov) + m"
  unfolding spec_window_count_def
  using ceil_div_upper [of "m - ov" "n - m"] by simp

lemma count_before: "ov < m \<Longrightarrow> Suc k < spec_window_count n m ov \<Longrightarrow> k * (m - ov) + m < n"
  unfolding spec_window_count_def
  using ceil_div_lower [of "m - ov" k "n - m"] by simp

lemma py_slice_window:
  assumes "i < length xs" and "0 < m"
  shows "py_slice xs (int i) (min (int i + int m) (int (length xs))) = take m (drop i xs)"
  using assms by (auto simp: py_slice_def Let_def min_def)


lemma chunk_loop_last:
  assumes "n = int (length T)" and "start < n" and "n \<le> start + m"
  shows "chunk_loop T m ov start acc = Some (acc @ [strip (py_slice T start (min (start + m) n))])"
  by (subst chunk_loop.simps) (use assms in \<open>simp add: Let_def min_def\<close>)

lemma chunk_loop_more:
  assumes "n = int (length T)" and "start < n" and "start + m < n" and "0 \<le> start + m - ov"
  shows "chunk_loop T m ov start acc =
           chunk_loop T m ov (start + m - ov) (acc @ [strip (py_slice T start (min (start + m) n))])"
  by (subst chunk_loop.simps) (use assms in \<open>simp add: Let_def min_def max_def\<close>)

lemma chunk_loop_windows:
  assumes "0 < m" and "ov < m"
    and "k < spec_window_count (length T) m ov"
    and "k * (m - ov) < length T"
  shows "chunk_loop T (int m) (int ov) (int (k * (m - ov))) acc =
           Some (acc @ map (\<lambda>j. strip (spec_window T m ov j)) [k..<spec_window_count (length T) m ov])"
  using assms(3,4)
proof (induction "spec_window_count (length T) m ov - k" arbitrary: k acc)
  case 0
  then show ?case by simp
next
  case (Suc d)
  let ?K = "spec_window_count (length T) m ov"
  let ?s = "m - ov"
  let ?n = "int (length T)"
  let ?st = "int (k * ?s)"
  have slice: "py_slice T ?st (min (?st + int m) ?n) = spec_window T m ov k"
    unfolding spec_window_def using Suc.prems(2) assms(1) by (rule py_slice_window)
  have st_lt: "?st < ?n"
    using Suc.prems(2) by (simp only: of_nat_less_iff)
  show ?case
  proof (cases "Suc k < ?K")
    case True
    then have lt: "k * ?s + m < length T"
      using count_before [OF assms(2)] by simp
    then have lt_int: "?st + int m < ?n"
      by (simp only: of_nat_less_iff flip: of_nat_add)
    have "int m - int ov = int ?s"
      using assms(2) by (simp add: of_nat_diff)
    moreover have "int (Suc k * ?s) = ?st + int ?s"
      by simp
    ultimately have next_start: "?st + int m - int ov = int (Suc k * ?s)"
      by linarith
    have next_lt: "Suc k * ?s < length T"
      using lt by (simp add: algebra_simps)
    have d: "d = ?K - Suc k" using Suc.hyps(2) by simp
    have range: "[k..<?K] = k # [Suc k..<?K]"
      using True by (simp add: upt_conv_Cons)
    have "chunk_loop T (int m) (int ov) ?st acc =
            chunk_loop T (int m) (int ov) (?st + int m - int ov)
              (acc @ [strip (py_slice T ?st (min (?st + int m) ?n))])"
      by (rule chunk_loop_more [OF refl st_lt lt_int]) (simp only: next_start of_nat_0_le_iff)
    also have "\<dots> = chunk_loop T (int m) (int ov) (int (Suc k * ?s))
                        (acc @ [strip (spec_window T m ov k)])"
      by (simp only: slice next_start)
    also have "\<dots> = Some ((acc @ [strip (spec_window T m ov k)])
                          @ map (\<lambda>j. strip (spec_window T m ov j)) [Suc k..<?K])"
      by (rule Suc.hyps(1) [OF d True next_lt])
    also have "\<dots> = Some (acc @ map (\<lambda>j. strip (spec_window T m ov j)) [k..<?K])"
      by (subst range) simp
    finally show ?thesis .
  next
    case False
    then have last: "?K = Suc k" using Suc.prems(1) by simp
    have "length T \<le> k * ?s + m"
      using count_last [OF assms(2), of "length T"] last by simp
    then have le_int: "?n \<le> ?st + int m"
      by (simp only: of_nat_le_iff flip: of_nat_add)
    have "chunk_loop T (int m) (int ov) ?st acc =
            Some (acc @ [strip (py_slice T ?st (min (?st + int m) ?n))])"
      by (rule chunk_loop_last [OF refl st_lt le_int])
    also have "\<dots> = Some (acc @ map (\<lambda>j. strip (spec_window T m ov j)) [k..<?K])"
      by (simp only: slice last) simp
    finally show ?thesis .
  qed
qed


lemma window_start_inside:
  assumes "ov < m" and "T \<noteq> []" and "k < spec_window_count (length T) m ov"
  shows "k * (m - ov) < length T"
proof (cases k)
  case 0
  then show ?thesis using assms(2) by simp
next
  case (Suc j)
  then have "j * (m - ov) + m < length T"
    using count_before [OF assms(1), of j "length T"] assms(3) by simp
  then show ?thesis using Suc assms(1) by (simp add: algebra_simps)
qed

lemma chunk_text_spec_windows:
  assumes "T \<noteq> []" and "0 < m" and "ov < m"
  shows "chunk_text T (int m) (int ov) =
           Some (filter (\<lambda>c. c \<noteq> []) (map strip (spec_windows T m ov)))"
proof -
  have "0 < spec_window_count (length T) m ov"
    by (simp add: spec_window_count_def)
  moreover have "0 * (m - ov) < length T"
    using assms(1) by simp
  ultimately have "chunk_loop T (int m) (int ov) (int (0 * (m - ov))) [] =
      Some ([] @ map (\<lambda>j. strip (spec_window T m ov j)) [0..<spec_window_count (length T) m ov])"
    by (rule chunk_loop_windows [OF assms(2,3)])
  then show ?thesis
    using assms(1) by (simp add: chunk_text_def spec_windows_def comp_def)
qed

lemma overlaps_prefix:
  assumes "ov < m" and "j < spec_window_count (length T) m ov"
  shows "take m T @ concat (map (\<lambda>k. drop ov (spec_window T m ov k)) [1..<Suc j])
           = take (j * (m - ov) + m) T"
  using assms(2)
proof (induction j)
  case 0
  then show ?case by simp
next
  case (Suc j)
  let ?f = "\<lambda>k. drop ov (spec_window T m ov k)"
  have eq: "ov + Suc j * (m - ov) = j * (m - ov) + m"
    using assms(1) by simp
  have step: "?f (Suc j) = take (m - ov) (drop (j * (m - ov) + m) T)"
    unfolding spec_window_def by (simp only: drop_take drop_drop eq)
  have IH: "take m T @ concat (map ?f [1..<Suc j]) = take (j * (m - ov) + m) T"
    using Suc by simp
  have "[1..<Suc (Suc j)] = [1..<Suc j] @ [Suc j]"
    by simp
  then have "take m T @ concat (map ?f [1..<Suc (Suc j)])
               = (take m T @ concat (map ?f [1..<Suc j])) @ ?f (Suc j)"
    by (simp only: map_append concat_append append_assoc list.map concat.simps append_Nil2)
  also have "\<dots> = take (j * (m - ov) + m) T @ take (m - ov) (drop (j * (m - ov) + m) T)"
    by (simp only: IH step)
  also have "\<dots> = take (j * (m - ov) + m + (m - ov)) T"
    by (simp only: take_add)
  also have "j * (m - ov) + m + (m - ov) = Suc j * (m - ov) + m"
    by simp
  finally show ?case .
qed

lemma remove_overlaps_spec_windows:
  assumes "ov < m"
  shows "remove_overlaps ov (spec_windows T m ov) = T"
proof -
  let ?K = "spec_window_count (length T) m ov"
  have K: "?K = Suc (?K - 1)" by (simp add: spec_window_count_def)
  have "[0..<?K] = 0 # [1..<Suc (?K - 1)]"
    by (subst K) (simp add: upt_conv_Cons del: upt_Suc)
  then have "remove_overlaps ov (spec_windows T m ov)
      = take m T @ concat (map (\<lambda>k. drop ov (spec_window T m ov k)) [1..<Suc (?K - 1)])"
    by (simp add: remove_overlaps_def spec_windows_def spec_window_def comp_def)
  also have "\<dots> = take ((?K - 1) * (m - ov) + m) T"
    by (rule overlaps_prefix [OF assms]) (simp add: spec_window_count_def)
  also have "\<dots> = T"
    using count_last [OF assms, of "length T"] by simp
  finally show ?thesis .
qed

text \<open>
  Claim C7. For a non-empty text and \<open>0 < max_chars\<close>, \<open>0 \<le> overlap < max_chars\<close>, the chunker
  returns, and its chunks are the windows \<open>k = 0, ..., K - 1\<close>, where window \<open>k\<close> starts
  \<open>k * (max_chars - overlap)\<close> characters into the text (inside the text) and holds at most
  \<open>max_chars\<close> characters; exactly the final window reaches the end of the text; each window is
  stripped of leading and trailing whitespace and the windows that become empty are dropped.
\<close>

theorem chunk_text_windows:
  assumes "T \<noteq> []" and "0 < max_chars" and "0 \<le> overlap" and "overlap < max_chars"
  shows "let m = nat max_chars; stride = nat (max_chars - overlap);
             K = spec_window_count (length T) m (nat overlap)
         in chunk_text T max_chars overlap =
              Some (filter (\<lambda>c. c \<noteq> []) (map (\<lambda>k. strip (take m (drop (k * stride) T))) [0..<K]))
            \<and> 0 < K
            \<and> (\<forall>k<K. k * stride < length T)
            \<and> (\<forall>k<K. (length T \<le> k * stride + m) = (Suc k = K))"
proof -
  define m where "m = nat max_chars"
  define ov where "ov = nat overlap"
  define K where "K = spec_window_count (length T) m ov"
  have m: "0 < m" and ov: "ov < m" and ints: "max_chars = int m" "overlap = int ov"
    and stride: "nat (max_chars - overlap) = m - ov"
    using assms(2-4) by (simp_all add: m_def ov_def)
  have c1: "chunk_text T max_chars overlap =
              Some (filter (\<lambda>c. c \<noteq> []) (map (\<lambda>k. strip (take m (drop (k * (m - ov)) T))) [0..<K]))"
    unfolding ints K_def
    by (simp add: chunk_text_spec_windows [OF assms(1) m ov] spec_windows_def spec_window_def comp_def)
  have c2: "0 < K" by (simp add: K_def spec_window_count_def)
  have c3: "\<forall>k<K. k * (m - ov) < length T"
    using window_start_inside [OF ov assms(1)] by (simp add: K_def)
  have c4: "\<forall>k<K. (length T \<le> k * (m - ov) + m) = (Suc k = K)"
  proof (intro allI impI)
    fix k assume k: "k < K"
    show "(length T \<le> k * (m - ov) + m) = (Suc k = K)"
    proof (cases "Suc k = K")
      case True
      then have "K - 1 = k" by simp
      then have "length T \<le> k * (m - ov) + m"
        using count_last [OF ov, of "length T"] by (simp only: K_def [symmetric])
      then show ?thesis using True by simp
    next
      case False
      then have "Suc k < K" using k by simp
      then have "k * (m - ov) + m < length T"
        unfolding K_def by (rule count_before [OF ov])
      then show ?thesis using False by simp
    qed
  qed
  show ?thesis
    using c1 c2 c3 c4 by (simp add: Let_def stride m_def [symmetric] ov_def [symmetric] K_def [symmetric])
qed


theorem chunk_text_windows_witness:
  "''a     b'' \<noteq> [] \<and> (0::int) < 3 \<and> (0::int) \<le> 1 \<and> (1::int) < 3
   \<and> chunk_text ''a     b'' 3 1 = Some [''a'', ''b'']"
proof -
  have "let m = nat 3; stride = nat (3 - 1); K = spec_window_count (length ''a     b'') m (nat 1)
         in chunk_text ''a     b'' 3 1 =
              Some (filter (\<lambda>c. c \<noteq> []) (map (\<lambda>k. strip (take m (drop (k * stride) ''a     b''))) [0..<K]))
            \<and> 0 < K
            \<and> (\<forall>k<K. k * stride < length ''a     b'')
            \<and> (\<forall>k<K. (length ''a     b'' \<le> k * stride + m) = (Suc k = K))"
    by (rule chunk_text_windows) simp_all
  from this [unfolded Let_def, THEN conjunct1]
  show ?thesis
    by (simp add: spec_window_count_def strip_def isspace_def upt_rec)
qed

lemma spec_windows_nonempty:
  assumes "T \<noteq> []" and "0 < m" and "ov < m" and "w \<in> set (spec_windows T m ov)"
  shows "w \<noteq> []"
proof -
  obtain k where k: "k < spec_window_count (length T) m ov" and w: "w = spec_window T m ov k"
    using assms(4) by (auto simp: spec_windows_def)
  have "k * (m - ov) < length T"
    using assms(3,1) k by (rule window_start_inside)
  then show ?thesis
    using assms(2) by (simp add: w spec_window_def)
qed

text \<open>
  Claim C2, as amended. For every text and \<open>0 < max_chars\<close>, \<open>0 \<le> overlap < max_chars\<close>: the
  untrimmed windows, concatenated with the first \<open>overlap\<close> characters of every window after the
  first removed, give back the text; the chunks returned for a non-empty text are these windows
  stripped, without the empty ones; so whenever stripping changes no window, the returned chunks
  reconstruct the text exactly.
\<close>

theorem chunk_text_coverage:
  assumes "0 < max_chars" and "0 \<le> overlap" and "overlap < max_chars"
  shows "remove_overlaps (nat overlap) (spec_windows T (nat max_chars) (nat overlap)) = T
         \<and> (T \<noteq> [] \<longrightarrow> chunk_text T max_chars overlap =
               Some (filter (\<lambda>c. c \<noteq> []) (map strip (spec_windows T (nat max_chars) (nat overlap)))))
         \<and> ((\<forall>w \<in> set (spec_windows T (nat max_chars) (nat overlap)). strip w = w) \<longrightarrow>
              (\<exists>cs. chunk_text T max_chars overlap = Some cs \<and> remove_overlaps (nat overlap) cs = T))"
proof -
  define m where "m = nat max_chars"
  define ov where "ov = nat overlap"
  have m: "0 < m" and ov: "ov < m" and ints: "max_chars = int m" "overlap = int ov"
    using assms by (simp_all add: m_def ov_def)
  have raw: "remove_overlaps ov (spec_windows T m ov) = T"
    using ov by (rule remove_overlaps_spec_windows)
  have eq: "chunk_text T (int m) (int ov) = Some (filter (\<lambda>c. c \<noteq> []) (map strip (spec_windows T m ov)))"
    if "T \<noteq> []"
    using that m ov by (rule chunk_text_spec_windows)
  have cov: "\<exists>cs. chunk_text T (int m) (int ov) = Some cs \<and> remove_overlaps ov cs = T"
    if fixed: "\<forall>w \<in> set (spec_windows T m ov). strip w = w"
  proof (cases "T = []")
    case True
    then show ?thesis by (simp add: chunk_text_def remove_overlaps_def)
  next
    case False
    have "map strip (spec_windows T m ov) = spec_windows T m ov"
      using fixed by (simp add: map_idI)
    moreover have "filter (\<lambda>c. c \<noteq> []) (spec_windows T m ov) = spec_windows T m ov"
      using spec_windows_nonempty [OF False m ov] by (simp add: filter_id_conv)
    ultimately have "chunk_text T (int m) (int ov) = Some (spec_windows T m ov)"
      using eq [OF False] by simp
    then show ?thesis using raw by simp
  qed
  show ?thesis
    unfolding ints nat_int using raw eq cov by blast
qed

theorem chunk_text_coverage_witness:
  "(0::int) < 5 \<and> (0::int) \<le> 2 \<and> (2::int) < 5
   \<and> spec_windows ''abcdefgh'' (nat 5) (nat 2) = [''abcde'', ''defgh'']
   \<and> strip ''abcde'' = ''abcde'' \<and> strip ''defgh'' = ''defgh''
   \<and> chunk_text ''abcdefgh'' 5 2 = Some [''abcde'', ''defgh'']
   \<and> remove_overlaps (nat 2) [''abcde'', ''defgh''] = ''abcdefgh''"
proof -
  have ws: "spec_windows ''abcdefgh'' (nat 5) (nat 2) = [''abcde'', ''defgh'']"
    by (simp add: spec_windows_def spec_window_count_def spec_window_def upt_rec)
  have s1: "strip ''abcde'' = ''abcde''" and s2: "strip ''defgh'' = ''defgh''"
    by (simp_all add: strip_def isspace_def)
  have fixed: "\<forall>w \<in> set (spec_windows ''abcdefgh'' (nat 5) (nat 2)). strip w = w"
    unfolding ws using s1 s2 by simp
  have all: "remove_overlaps (nat 2) (spec_windows ''abcdefgh'' (nat 5) (nat 2)) = ''abcdefgh''
         \<and> (''abcdefgh'' \<noteq> [] \<longrightarrow> chunk_text ''abcdefgh'' 5 2 =
               Some (filter (\<lambda>c. c \<noteq> []) (map strip (spec_windows ''abcdefgh'' (nat 5) (nat 2)))))
         \<and> ((\<forall>w \<in> set (spec_windows ''abcdefgh'' (nat 5) (nat 2)). strip w = w) \<longrightarrow>
              (\<exists>cs. chunk_text ''abcdefgh'' 5 2 = Some cs \<and> remove_overlaps (nat 2) cs = ''abcdefgh''))"
    by (rule chunk_text_coverage) simp_all
  then have "chunk_text ''abcdefgh'' 5 2 =
          Some (filter (\<lambda>c. c \<noteq> []) (map strip (spec_windows ''abcdefgh'' (nat 5) (nat 2))))"
    by simp
  then have c: "chunk_text ''abcdefgh'' 5 2 = Some [''abcde'', ''defgh'']"
    unfolding ws using s1 s2 by simp
  from all fixed obtain cs where
    "chunk_text ''abcdefgh'' 5 2 = Some cs" and "remove_overlaps (nat 2) cs = ''abcdefgh''"
    by blast
  with c have "remove_overlaps (nat 2) [''abcde'', ''defgh''] = ''abcdefgh''"
    by simp
  with ws s1 s2 c show ?thesis by simp
qed

text \<open>
  Claim C2 as stated fails where a window begins or ends with whitespace: the text \<open>" a"\<close> with
  \<open>max_chars = 5\<close> and \<open>overlap = 0\<close> gives the single chunk \<open>"a"\<close>, and the leading blank is lost.
\<close>

theorem chunk_text_coverage_counterexample:
  "(0::int) < 5 \<and> (0::int) \<le> 0 \<and> (0::int) < 5
   \<and> chunk_text '' a'' 5 0 = Some [''a'']
   \<and> remove_overlaps (nat 0) [''a''] \<noteq> '' a''"
  by (simp add: chunk_text_def chunk_loop.simps py_slice_def strip_def isspace_def remove_overlaps_def)

section \<open>Properties of the similarity\<close>

lemma cosine_loop_sums:
  "cosine_loop ps (d, p, q) =
     (d + sum_list (map (\<lambda>(x, y). x * y) ps),
      p + sum_list (map (\<lambda>(x, y). x * x) ps),
      q + sum_list (map (\<lambda>(x, y). y * y) ps))"
  by (induction ps arbitrary: d p q) (auto simp: algebra_simps)

lemma sum_squares_nonneg: "0 \<le> sum_list (map (\<lambda>(x, y). x * x) ps) \<and> 0 \<le> sum_list (map (\<lambda>(x::real, y::real). y * y) ps)"
  for ps :: "(real \<times> real) list"
  by (induction ps) auto

lemma cosine_loop_norms_nonneg:
  assumes "cosine_loop ps (0, 0, 0) = (dot, na, nb)"
  shows "0 \<le> na \<and> 0 \<le> nb"
  using assms sum_squares_nonneg [of ps] by (simp add: cosine_loop_sums)

lemma cosine_try_guard:
  assumes "cosine_loop (zip a b) (0, 0, 0) = (dot, na, nb)" and "na = 0 \<or> nb = 0"
  shows "cosine_try a b = Inr 0"
  using assms by (simp add: cosine_try_def)

lemma cosine_try_divide:
  assumes "cosine_loop (zip a b) (0, 0, 0) = (dot, na, nb)" and "na \<noteq> 0" and "nb \<noteq> 0"
  shows "sqrt na * sqrt nb \<noteq> 0 \<and> cosine_try a b = Inr (dot / (sqrt na * sqrt nb))"
proof -
  have "0 \<le> na" "0 \<le> nb"
    using cosine_loop_norms_nonneg [OF assms(1)] by simp_all
  then show ?thesis
    using assms by (simp add: cosine_try_def py_sqrt_def py_truediv_def)
qed

lemma cosine_try_returns: "\<exists>r. cosine_try a b = Inr r"
proof -
  obtain dot na nb where l: "cosine_loop (zip a b) (0, 0, 0) = (dot, na, nb)"
    by (metis prod_cases3)
  show ?thesis
  proof (cases "na = 0 \<or> nb = 0")
    case True
    then show ?thesis using cosine_try_guard [OF l] by simp
  next
    case False
    then show ?thesis using cosine_try_divide [OF l] by simp
  qed
qed

lemma sum_list_all_zero:
  fixes f :: "'a \<Rightarrow> real"
  shows "\<forall>p \<in> set ps. f p = 0 \<Longrightarrow> sum_list (map f ps) = 0"
  by (induction ps) auto

lemma sum_squares_zero_prefix:
  fixes a :: "real list"
  assumes "sum_list (map (\<lambda>x. x * x) a) = 0"
  shows "sum_list (map (\<lambda>(x, y). x * x) (zip a b)) = 0"
proof -
  have "\<forall>x \<in> set a. x = 0"
    using assms
  proof (induction a)
    case Nil
    then show ?case by simp
  next
    case (Cons x xs)
    have "0 \<le> sum_list (map (\<lambda>x. x * x) xs)"
      by (rule sum_list_nonneg) auto
    moreover have "0 \<le> x * x" by simp
    ultimately have "x * x = 0 \<and> sum_list (map (\<lambda>x. x * x) xs) = 0"
      using Cons.prems by (simp add: add_nonneg_eq_0_iff)
    then show ?case using Cons.IH by simp
  qed
  then have "\<forall>p \<in> set (zip a b). fst p = 0"
    by (auto dest: set_zip_leftD)
  then have "\<forall>p \<in> set (zip a b). (case p of (x, y) \<Rightarrow> x * x) = 0"
    by auto
  then show ?thesis
    by (rule sum_list_all_zero)
qed

lemma sum_squares_zero_prefix_right:
  fixes b :: "real list"
  assumes "sum_list (map (\<lambda>x. x * x) b) = 0"
  shows "sum_list (map (\<lambda>(x, y). y * y) (zip a b)) = 0"
proof -
  have "sum_list (map (\<lambda>(x, y). x * x) (zip b a)) = 0"
    using assms by (rule sum_squares_zero_prefix)
  moreover have "map (\<lambda>(x, y). y * y) (zip a b) = map (\<lambda>(x, y). x * x) (zip b a)"
    by (induction a arbitrary: b) (auto simp: zip_Cons1 zip_Cons split: list.splits)
  ultimately show ?thesis by simp
qed

text \<open>
  Claim C8. If either vector has zero magnitude (its squared components sum to 0), or the sum the
  loop computes for either vector over the zipped pairs is 0, the function returns 0 through
  the guard, with no exception raised inside the \<open>try\<close>; in the other case both sums are
  nonzero, the divisor \<open>sqrt na * sqrt nb\<close> is nonzero and the result is the quotient.
\<close>

theorem cosine_similarity_zero_magnitude:
  "(sum_list (map (\<lambda>x. x * x) a) = 0 \<or> sum_list (map (\<lambda>y. y * y) b) = 0 \<longrightarrow>
      cosine_try a b = Inr 0 \<and> cosine_similarity a b = 0)
   \<and> (\<forall>dot na nb. cosine_loop (zip a b) (0, 0, 0) = (dot, na, nb) \<longrightarrow>
        (na = 0 \<or> nb = 0 \<longrightarrow> cosine_try a b = Inr 0 \<and> cosine_similarity a b = 0)
        \<and> (na \<noteq> 0 \<and> nb \<noteq> 0 \<longrightarrow>
              sqrt na * sqrt nb \<noteq> 0 \<and> cosine_try a b = py_truediv dot (sqrt na * sqrt nb)))"
proof (intro conjI impI allI)
  assume z: "sum_list (map (\<lambda>x. x * x) a) = 0 \<or> sum_list (map (\<lambda>y. y * y) b) = 0"
  obtain dot na nb where l: "cosine_loop (zip a b) (0, 0, 0) = (dot, na, nb)"
    by (metis prod_cases3)
  have "na = 0 \<or> nb = 0"
    using z l sum_squares_zero_prefix [of a b] sum_squares_zero_prefix_right [of b a]
    by (auto simp: cosine_loop_sums)
  then show "cosine_try a b = Inr 0" using cosine_try_guard [OF l] by simp
  then show "cosine_similarity a b = 0" by (simp add: cosine_similarity_def)
next
  fix dot na nb
  assume l: "cosine_loop (zip a b) (0, 0, 0) = (dot, na, nb)"
  {
    assume "na = 0 \<or> nb = 0"
    then show "cosine_try a b = Inr 0" using cosine_try_guard [OF l] by simp
    then show "cosine_similarity a b = 0" by (simp add: cosine_similarity_def)
  }
  {
    assume nz: "na \<noteq> 0 \<and> nb \<noteq> 0"
    then show "sqrt na * sqrt nb \<noteq> 0" using cosine_try_divide [OF l] by simp
    then show "cosine_try a b = py_truediv dot (sqrt na * sqrt nb)"
      using cosine_try_divide [OF l] nz by (simp add: py_truediv_def)
  }
qed


theorem cosine_similarity_zero_magnitude_witness:
  "sum_list (map (\<lambda>x. x * x) [0, 0 :: real]) = 0
   \<and> cosine_try [0, 0] [3, 4] = Inr 0 \<and> cosine_similarity [0, 0] [3, 4] = 0
   \<and> cosine_loop (zip [1, 0] [1, 0]) (0, 0, 0) = (1, 1, 1)
   \<and> sqrt 1 * sqrt 1 \<noteq> (0 :: real)
   \<and> cosine_try [1, 0] [1, 0] = py_truediv 1 (sqrt 1 * sqrt 1)"
proof -
  have z: "sum_list (map (\<lambda>x. x * x) [0, 0 :: real]) = 0" by simp
  have l: "cosine_loop (zip [1, 0] [1, 0]) (0, 0, 0) = (1, 1, 1)" by simp
  have "cosine_try [0, 0] [3, 4] = Inr 0 \<and> cosine_similarity [0, 0] [3, 4] = 0"
    using cosine_similarity_zero_magnitude [of "[0, 0]" "[3, 4]"] z by blast
  moreover have "sqrt 1 * sqrt 1 \<noteq> (0 :: real)
      \<and> cosine_try [1, 0] [1, 0] = py_truediv 1 (sqrt 1 * sqrt 1)"
    using cosine_similarity_zero_magnitude [of "[1, 0]" "[1, 0]"] l by simp
  ultimately show ?thesis using z l by blast
qed

lemma zip_common_prefix:
  "zip (take (min (length a) (length b)) a) (take (min (length a) (length b)) b) = zip a b"
proof -
  have "zip (take (min (length a) (length b)) a) (take (min (length a) (length b)) b)
          = take (min (length a) (length b)) (zip a b)"
    by (simp only: take_zip)
  also have "\<dots> = zip a b" by simp
  finally show ?thesis .
qed

lemma score_chunks_member:
  assumes "doc \<in> set docs" and "ch \<in> set (doc_chunks doc)"
  shows "(cosine_similarity q (embedding ch), chunk_text_of ch, source_path doc) \<in> set (score_chunks q docs)"
  using assms unfolding score_chunks_def by auto

lemma sum_list_zip_nth:
  fixes f :: "real \<Rightarrow> real \<Rightarrow> real"
  shows "sum_list (map (\<lambda>(x, y). f x y) (zip a b)) = (\<Sum>i<min (length a) (length b). f (a ! i) (b ! i))"
proof -
  have "sum_list (map (\<lambda>(x, y). f x y) (zip a b))
          = (\<Sum>i = 0..<length (zip a b). map (\<lambda>(x, y). f x y) (zip a b) ! i)"
    by (simp only: sum_list_sum_nth length_map)
  also have "\<dots> = (\<Sum>i = 0..<min (length a) (length b). f (a ! i) (b ! i))"
    by (rule sum.cong) simp_all
  finally show ?thesis by (simp only: lessThan_atLeast0)
qed

lemma cosine_loop_prefix_sums:
  "cosine_loop (zip a b) (0, 0, 0) =
     ((\<Sum>i<min (length a) (length b). a ! i * b ! i),
      (\<Sum>i<min (length a) (length b). a ! i * a ! i),
      (\<Sum>i<min (length a) (length b). b ! i * b ! i))"
  using sum_list_zip_nth [of "\<lambda>x y. x * y" a b] sum_list_zip_nth [of "\<lambda>x y. x * x" a b]
        sum_list_zip_nth [of "\<lambda>x y. y * y" a b]
  by (simp add: cosine_loop_sums)

lemma cosine_try_value:
  "cosine_try a b =
     Inr (if (\<Sum>i<min (length a) (length b). a ! i * a ! i) = 0
             \<or> (\<Sum>i<min (length a) (length b). b ! i * b ! i) = 0 then 0
          else (\<Sum>i<min (length a) (length b). a ! i * b ! i)
               / (sqrt (\<Sum>i<min (length a) (length b). a ! i * a ! i)
                  * sqrt (\<Sum>i<min (length a) (length b). b ! i * b ! i)))"
proof (cases "(\<Sum>i<min (length a) (length b). a ! i * a ! i) = 0
             \<or> (\<Sum>i<min (length a) (length b). b ! i * b ! i) = 0")
  case True
  then show ?thesis
    using cosine_try_guard [OF cosine_loop_prefix_sums [of a b]] by simp
next
  case False
  then show ?thesis
    using cosine_try_divide [OF cosine_loop_prefix_sums [of a b]] by simp
qed

text \<open>
  Claim C10. For vectors of unequal length, with \<open>n\<close> the shorter length (below the longer one):
  the similarity is computed, without any exception, from the first \<open>n\<close> components of each
  vector only: it is \<open>dot / (sqrt na * sqrt nb)\<close> for the sums \<open>dot\<close>, \<open>na\<close>, \<open>nb\<close> of
  \<open>a ! i * b ! i\<close>, \<open>a ! i * a ! i\<close>, \<open>b ! i * b ! i\<close> over \<open>i < n\<close> (and 0 when \<open>na\<close> or \<open>nb\<close> is 0),
  which is the similarity of the two prefixes of length \<open>n\<close>; and the ranker's scoring loop
  lists a chunk whose embedding has another length than the query under exactly that score:
  the mismatch is not reported.
\<close>

theorem cosine_similarity_common_prefix:
  assumes "length a \<noteq> length b"
  shows "let n = min (length a) (length b);
             dot = (\<Sum>i<n. a ! i * b ! i);
             na = (\<Sum>i<n. a ! i * a ! i);
             nb = (\<Sum>i<n. b ! i * b ! i);
             score = (if na = 0 \<or> nb = 0 then 0 else dot / (sqrt na * sqrt nb))
         in n < max (length a) (length b)
          \<and> cosine_try a b = Inr score
          \<and> cosine_similarity a b = score
          \<and> cosine_try a b = cosine_try (take n a) (take n b)
          \<and> cosine_similarity a b = cosine_similarity (take n a) (take n b)
          \<and> (\<forall>docs doc ch. doc \<in> set docs \<and> ch \<in> set (doc_chunks doc) \<and> embedding ch = b \<longrightarrow>
                (score, chunk_text_of ch, source_path doc) \<in> set (score_chunks a docs))"
proof -
  define n where "n = min (length a) (length b)"
  define score where "score =
     (if (\<Sum>i<n. a ! i * a ! i) = 0 \<or> (\<Sum>i<n. b ! i * b ! i) = 0 then 0
      else (\<Sum>i<n. a ! i * b ! i) / (sqrt (\<Sum>i<n. a ! i * a ! i) * sqrt (\<Sum>i<n. b ! i * b ! i)))"
  have short: "n < max (length a) (length b)"
    using assms by (simp add: n_def)
  have v: "cosine_try a b = Inr score"
    unfolding score_def n_def by (rule cosine_try_value)
  then have sv: "cosine_similarity a b = score"
    by (simp add: cosine_similarity_def)
  have t: "cosine_try a b = cosine_try (take n a) (take n b)"
    unfolding cosine_try_def n_def by (simp only: zip_common_prefix)
  then have s: "cosine_similarity a b = cosine_similarity (take n a) (take n b)"
    by (simp add: cosine_similarity_def)
  have m: "(score, chunk_text_of ch, source_path doc) \<in> set (score_chunks a docs)"
    if "doc \<in> set docs" and "ch \<in> set (doc_chunks doc)" and "embedding ch = b" for docs doc ch
    using score_chunks_member [OF that(1,2), of a] that(3) sv by simp
  show ?thesis
    unfolding Let_def n_def [symmetric] score_def [symmetric] using short v sv t s m by blast
qed


lemma sqrt_25: "sqrt 25 = 5"
  by (rule real_sqrt_unique) simp_all

theorem cosine_similarity_common_prefix_witness:
  "length [3, 4 :: real] \<noteq> length [4, 3, 9 :: real]
   \<and> cosine_try [3, 4] [4, 3, 9] = Inr (24 / 25)
   \<and> cosine_similarity [3, 4] [4, 3, 9] = 24 / 25
   \<and> cosine_similarity [3, 4] [4, 3] = 24 / 25
   \<and> score_chunks [3, 4]
        [\<lparr>document_id = ''d'', source_path = ''s.pdf'', doc_name = ''s.pdf'',
          doc_chunks = [\<lparr>chunk_id = ''d_0'', chunk_text_of = ''t'', embedding = [4, 3, 9]\<rparr>]\<rparr>]
       = [(24 / 25, ''t'', ''s.pdf'')]"
proof -
  have ne: "length [3, 4 :: real] \<noteq> length [4, 3, 9 :: real]" by simp
  have n: "min (length [3, 4 :: real]) (length [4, 3, 9 :: real]) = Suc (Suc 0)" by simp
  note all = cosine_similarity_common_prefix [OF ne, unfolded Let_def n]
  from all [THEN conjunct2, THEN conjunct1]
  have t: "cosine_try [3, 4] [4, 3, 9] = Inr (24 / 25)"
    by (simp add: sqrt_25)
  from all [THEN conjunct2, THEN conjunct2, THEN conjunct2, THEN conjunct2, THEN conjunct1]
  have p: "cosine_similarity [3, 4] [4, 3, 9] = cosine_similarity [3, 4] [4, 3]"
    by simp
  from t have s: "cosine_similarity [3, 4] [4, 3, 9] = 24 / 25"
    by (simp add: cosine_similarity_def)
  with p have "cosine_similarity [3, 4] [4, 3] = 24 / 25" by simp
  with t s show ?thesis by (simp add: score_chunks_def)
qed

section \<open>Properties of embedding and ingestion\<close>

lemma chunk_text_default_returns: "\<exists>cs. chunk_text raw 1200 150 = Some cs"
proof (cases "raw = []")
  case True
  then show ?thesis by (simp add: chunk_text_def)
next
  case False
  have "chunk_text raw (int 1200) (int 150) =
          Some (filter (\<lambda>c. c \<noteq> []) (map strip (spec_windows raw 1200 150)))"
    using False by (rule chunk_text_spec_windows) simp_all
  then show ?thesis by simp
qed

text \<open>
  Claim C3, as amended. For a non-empty list of texts, \<open>embed_texts\<close> returns \<open>[]\<close> when the
  provider call raises and otherwise the vectors of the provider's response, in the order of
  the response and without checking their number; the result has the length of the input
  exactly when the provider answered with one vector per text.
\<close>

theorem embed_texts_result:
  assumes "texts \<noteq> []"
  shows "(\<forall>e. client texts = Inl e \<longrightarrow> embed_texts client texts = [])
       \<and> (\<forall>vs. client texts = Inr vs \<longrightarrow> embed_texts client texts = vs)
       \<and> ((length (embed_texts client texts) = length texts)
            = (\<exists>vs. client texts = Inr vs \<and> length vs = length texts))"
  using assms by (cases "client texts") (auto simp: embed_texts_def)

theorem embed_texts_result_witness:
  "[''a'', ''b''] \<noteq> []
   \<and> embed_texts (\<lambda>ts. Inr [[1], [2]]) [''a'', ''b''] = [[1], [2]]
   \<and> length (embed_texts (\<lambda>ts. Inr [[1], [2]]) [''a'', ''b'']) = length [''a'', ''b'']
   \<and> embed_texts (\<lambda>ts. Inl (ProviderError ''quota'')) [''a'', ''b''] = []"
  using embed_texts_result [of "[''a'', ''b'']" "\<lambda>ts. Inr [[1], [2]]"]
        embed_texts_result [of "[''a'', ''b'']" "\<lambda>ts. Inl (ProviderError ''quota'')"]
  by simp

text \<open>
  Claim C3 as stated fails: with a provider that raises, the result for the one text \<open>"a"\<close> is
  the empty list, an ordinary return value whose length differs from the input's; and one
  vector answered for two texts is returned as it is.
\<close>

theorem embed_texts_length_counterexample:
  "[''a''] \<noteq> []
   \<and> embed_texts (\<lambda>ts. Inl (ProviderError ''quota'')) [''a''] = []
   \<and> length (embed_texts (\<lambda>ts. Inl (ProviderError ''quota'')) [''a'']) \<noteq> length [''a'']
   \<and> embed_texts (\<lambda>ts. Inr [[1]]) [''a'', ''b''] = [[1]]
   \<and> length (embed_texts (\<lambda>ts. Inr [[1]]) [''a'', ''b'']) \<noteq> length [''a'', ''b'']"
  by (simp add: embed_texts_def)

text \<open>
  Claim C1. Chunking the extracted text with the default parameters always returns. If the
  extracted text is empty, or no chunk is produced, or the provider raises on the chunks, or it
  answers with a number of vectors different from the number of chunks, then \<open>ingest_pdf_to_db\<close>
  returns \<open>None\<close> and the disk afterwards is the disk before, whatever it held.
\<close>

theorem ingest_failure_no_write:
  assumes "extract_text_from_pdf env pdf_path = []
         \<or> (\<exists>cs. chunk_text (extract_text_from_pdf env pdf_path) 1200 150 = Some cs
               \<and> (cs = [] \<or> (\<exists>e. client cs = Inl e)
                          \<or> (\<exists>vs. client cs = Inr vs \<and> length vs \<noteq> length cs)))"
  shows "(\<exists>cs. chunk_text (extract_text_from_pdf env pdf_path) 1200 150 = Some cs)
       \<and> ingest_pdf_to_db env client d pdf_path db_path = Some (None, d)"
proof -
  obtain cs where cs: "chunk_text (extract_text_from_pdf env pdf_path) 1200 150 = Some cs"
    using chunk_text_default_returns by blast
  have "ingest_pdf_to_db env client d pdf_path db_path = Some (None, d)"
  proof (cases "extract_text_from_pdf env pdf_path = []")
    case True
    then show ?thesis by (simp add: ingest_pdf_to_db_def)
  next
    case False
    with assms cs have c: "cs = [] \<or> (\<exists>e. client cs = Inl e)
                          \<or> (\<exists>vs. client cs = Inr vs \<and> length vs \<noteq> length cs)"
      by simp
    show ?thesis
    proof (cases "cs = []")
      case True
      then show ?thesis using cs by (simp add: ingest_pdf_to_db_def Let_def)
    next
      case nonempty: False
      with c have "embed_texts client cs = [] \<or> length (embed_texts client cs) \<noteq> length cs"
        by (auto simp: embed_texts_def)
      then show ?thesis using cs by (auto simp: ingest_pdf_to_db_def Let_def)
    qed
  qed
  with cs show ?thesis by simp
qed


lemma chunk_text_hello: "chunk_text ''hello'' 1200 150 = Some [''hello'']"
  by (simp add: chunk_text_def chunk_loop.simps py_slice_def strip_def isspace_def)

theorem ingest_failure_no_write_witness:
  "chunk_text ''hello'' 1200 150 = Some [''hello'']
   \<and> (\<lambda>ts. Inl (ProviderError ''quota'') :: py_error + vector list) [''hello''] = Inl (ProviderError ''quota'')
   \<and> ingest_pdf_to_db
        \<lparr>extract_text_from_pdf = (\<lambda>p. ''hello''), uuid4 = ''u'', abspath = (\<lambda>p. p),
         basename = (\<lambda>p. p), fault = NoFault\<rparr>
        (\<lambda>ts. Inl (ProviderError ''quota''))
        [''db.json'' \<mapsto> Db []] ''a.pdf'' ''db.json''
      = Some (None, [''db.json'' \<mapsto> Db []])"
proof -
  let ?env = "\<lparr>extract_text_from_pdf = (\<lambda>p. ''hello''), uuid4 = ''u'', abspath = (\<lambda>p. p),
         basename = (\<lambda>p. p), fault = NoFault\<rparr>"
  let ?client = "(\<lambda>ts. Inl (ProviderError ''quota'')) :: client"
  have "extract_text_from_pdf ?env ''a.pdf'' = []
         \<or> (\<exists>cs. chunk_text (extract_text_from_pdf ?env ''a.pdf'') 1200 150 = Some cs
               \<and> (cs = [] \<or> (\<exists>e. ?client cs = Inl e)
                          \<or> (\<exists>vs. ?client cs = Inr vs \<and> length vs \<noteq> length cs)))"
    by (simp add: chunk_text_hello)
  from ingest_failure_no_write [OF this, of "[''db.json'' \<mapsto> Db []]" "''db.json''"]
  show ?thesis by (simp add: chunk_text_hello)
qed







section \<open>Properties of the retrieve tool\<close>



lemma search_db_embedding_fails:
  assumes "client [query] = Inl e"
  shows "search_db client d db_path query top_k = []"
  using assms by (simp add: search_db_def embed_texts_def Let_def)

lemma search_db_empty_store:
  assumes "load_db d db_path = []"
  shows "search_db client d db_path query top_k = []"
  using assms by (simp add: search_db_def Let_def)

text \<open>
  Claim C4, as amended. For a non-empty query and a client that could be created: when
  embedding the query fails, \<open>search_db\<close> returns the empty list and \<open>retrieve\<close> returns the
  "No results found" message for the tenant, which is also what both return when the store
  holds no document.
\<close>

theorem retrieve_embedding_failure:
  assumes "query \<noteq> []" and "get_openai_client env = Inr client"
    and "(\<exists>e. client [query] = Inl e)
         \<or> load_db d (get_user_db_path env user_id session_id db_path) = []"
  shows "search_db client d (get_user_db_path env user_id session_id db_path) query top_k = []
       \<and> retrieve env d query user_id session_id top_k db_path
           = Inr (no_results_message user_id session_id)"
proof -
  have s: "search_db client d (get_user_db_path env user_id session_id db_path) query top_k = []"
    using assms(3) search_db_embedding_fails search_db_empty_store by blast
  then have "retrieve_try env d query user_id session_id top_k db_path
               = Inr (no_results_message user_id session_id)"
    using assms(1,2) by (simp add: retrieve_try_def Let_def)
  then show ?thesis using s by (simp add: retrieve_def)
qed


lemma no_results_message_1_2:
  "no_results_message 1 2 =
     ''No results found in the knowledge base for user 1, session 2. Please upload a PDF document first.''"
  by code_simp

theorem retrieve_embedding_failure_witness:
  "''q'' \<noteq> []
   \<and> (\<lambda>ts. Inl (ProviderError ''timeout'') :: py_error + vector list) [''q''] = Inl (ProviderError ''timeout'')
   \<and> load_db [''db.json'' \<mapsto> Db [\<lparr>document_id = ''d'', source_path = ''s'', doc_name = ''s'',
          doc_chunks = [\<lparr>chunk_id = ''d_0'', chunk_text_of = ''a'', embedding = [0, 1]\<rparr>]\<rparr>]] ''db.json'' \<noteq> []
   \<and> retrieve
        \<lparr>get_openai_client = Inr (\<lambda>ts. Inl (ProviderError ''timeout'')), getcwd = ''/srv'',
         format_4f = (\<lambda>x. ''0.0000''), str_of_error = (\<lambda>e. ''error'')\<rparr>
        [''db.json'' \<mapsto> Db [\<lparr>document_id = ''d'', source_path = ''s'', doc_name = ''s'',
          doc_chunks = [\<lparr>chunk_id = ''d_0'', chunk_text_of = ''a'', embedding = [0, 1]\<rparr>]\<rparr>]]
        ''q'' 1 2 5 (Some ''db.json'')
      = Inr ''No results found in the knowledge base for user 1, session 2. Please upload a PDF document first.''"
proof -
  let ?client = "(\<lambda>ts. Inl (ProviderError ''timeout'')) :: client"
  let ?env = "\<lparr>get_openai_client = Inr ?client, getcwd = ''/srv'',
         format_4f = (\<lambda>x. ''0.0000''), str_of_error = (\<lambda>e. ''error'')\<rparr>"
  let ?d = "[''db.json'' \<mapsto> Db [\<lparr>document_id = ''d'', source_path = ''s'', doc_name = ''s'',
          doc_chunks = [\<lparr>chunk_id = ''d_0'', chunk_text_of = ''a'', embedding = [0, 1]\<rparr>]\<rparr>]]"
  have q: "''q'' \<noteq> []" by simp
  have c: "get_openai_client ?env = Inr ?client" by simp
  have f: "(\<exists>e. ?client [''q''] = Inl e)
         \<or> load_db ?d (get_user_db_path ?env 1 2 (Some ''db.json'')) = []"
    by simp
  have l: "load_db ?d ''db.json'' \<noteq> []" by (simp add: load_db_def)
  from retrieve_embedding_failure [OF q c f, of 5]
  have "retrieve ?env ?d ''q'' 1 2 5 (Some ''db.json'') = Inr (no_results_message 1 2)"
    by (elim conjE)
  with l show ?thesis by (simp add: no_results_message_1_2)
qed

text \<open>
  Claim C4 as stated fails: with one document stored and a provider that raises on the query,
  \<open>retrieve\<close> returns, as an ordinary result, the very string it returns for an empty store
  and a working provider.
\<close>

theorem retrieve_embedding_failure_counterexample:
  "load_db [''db.json'' \<mapsto> Db [\<lparr>document_id = ''d'', source_path = ''s'', doc_name = ''s'',
          doc_chunks = [\<lparr>chunk_id = ''d_0'', chunk_text_of = ''a'', embedding = [0, 1]\<rparr>]\<rparr>]] ''db.json'' \<noteq> []
   \<and> embed_texts (\<lambda>ts. Inl (ProviderError ''timeout'')) [''q''] = []
   \<and> retrieve
        \<lparr>get_openai_client = Inr (\<lambda>ts. Inl (ProviderError ''timeout'')), getcwd = ''/srv'',
         format_4f = (\<lambda>x. ''0.0000''), str_of_error = (\<lambda>e. ''error'')\<rparr>
        [''db.json'' \<mapsto> Db [\<lparr>document_id = ''d'', source_path = ''s'', doc_name = ''s'',
          doc_chunks = [\<lparr>chunk_id = ''d_0'', chunk_text_of = ''a'', embedding = [0, 1]\<rparr>]\<rparr>]]
        ''q'' 1 2 5 (Some ''db.json'')
      = Inr ''No results found in the knowledge base for user 1, session 2. Please upload a PDF document first.''
   \<and> load_db Map.empty ''db.json'' = []
   \<and> retrieve
        \<lparr>get_openai_client = Inr (\<lambda>ts. Inr [[1, 0]]), getcwd = ''/srv'',
         format_4f = (\<lambda>x. ''0.0000''), str_of_error = (\<lambda>e. ''error'')\<rparr>
        Map.empty ''q'' 1 2 5 (Some ''db.json'')
      = Inr ''No results found in the knowledge base for user 1, session 2. Please upload a PDF document first.''"
  by (simp add: retrieve_def retrieve_try_def search_db_def embed_texts_def load_db_def
        get_user_db_path_def no_results_message_1_2)

end
